theory Spec2Isabelle
  imports Complex_Main "HOL-Library.Word" "HOL-Library.Multiset"
begin

section \<open>Data model\<close>

text \<open>
  The reporters of \<^verbatim>\<open>reporters.go\<close>: \<^verbatim>\<open>TextReporter\<close> (the summary aggregator) and
  \<^verbatim>\<open>GraphicalReporter\<close> (the chronological aggregator). A Go panic is a value of type
  \<open>panic\<close>; a function that can panic returns \<open>panic + 'a\<close>.
\<close>

datatype panic = NilDereference | TypeAssertion | MakeSliceLen

text \<open>
  \<^verbatim>\<open>time.Time\<close> of the Go standard library: seconds and nanoseconds of the instant, and a
  location that only matters for printing. \<^verbatim>\<open>Before\<close> and \<^verbatim>\<open>After\<close> compare instants.
\<close>

record Time =
  sec :: int
  nsec :: int
  loc :: string

definition Before :: "Time \<Rightarrow> Time \<Rightarrow> bool" where
  "Before t u = (sec t < sec u \<or> (sec t = sec u \<and> nsec t < nsec u))"

definition After :: "Time \<Rightarrow> Time \<Rightarrow> bool" where
  "After t u = (sec t > sec u \<or> (sec t = sec u \<and> nsec t > nsec u))"

text \<open>
  Modelled from the spec: the struct \<^verbatim>\<open>Response\<close> is declared outside \<^verbatim>\<open>reporters.go\<close>.
  Its fields are the ones the reporters read, at the types their uses force:
  \<^verbatim>\<open>code\<close>, \<^verbatim>\<open>bytesOut\<close>, \<^verbatim>\<open>bytesIn\<close> are \<^verbatim>\<open>uint64\<close>, \<^verbatim>\<open>timing\<close> is a
  \<^verbatim>\<open>time.Duration\<close> (an \<^verbatim>\<open>int64\<close> of nanoseconds, read with \<open>sint\<close>),
  \<^verbatim>\<open>timestamp\<close> a \<^verbatim>\<open>time.Time\<close>, and \<^verbatim>\<open>err\<close> an \<^verbatim>\<open>error\<close>: \<open>None\<close> is \<^verbatim>\<open>nil\<close>,
  \<open>Some m\<close> an error whose \<^verbatim>\<open>Error()\<close> is \<open>m\<close>.
\<close>

record Response =
  code :: "64 word"
  timing :: "64 word"
  bytesOut :: "64 word"
  bytesIn :: "64 word"
  timestamp :: Time
  err :: "string option"

text \<open>A \<^verbatim>\<open>*Response\<close> is \<open>Response option\<close>: \<open>None\<close> is the nil pointer.\<close>

definition deref :: "Response option \<Rightarrow> panic + Response" where
  "deref p = (case p of None \<Rightarrow> Inl NilDereference | Some r \<Rightarrow> Inr r)"

text \<open>
  An element of a \<^verbatim>\<open>container/list\<close> holds an \<^verbatim>\<open>interface{}\<close>: either a \<^verbatim>\<open>*Response\<close>
  or a value of some other dynamic type, on which the assertion \<^verbatim>\<open>.(*Response)\<close> panics.
\<close>

datatype Value = ResponsePtr "Response option" | OtherValue

definition assert_Response :: "Value \<Rightarrow> panic + Response option" where
  "assert_Response v = (case v of ResponsePtr p \<Rightarrow> Inr p | OtherValue \<Rightarrow> Inl TypeAssertion)"

text \<open>An \<^verbatim>\<open>io.Writer\<close>: \<^verbatim>\<open>Write\<close> returns the number of bytes written and an error.\<close>

type_synonym Writer = "string \<Rightarrow> nat \<times> string option"

definition Sprintln :: "string \<Rightarrow> string" where
  "Sprintln s = s @ [CHR 0x0A]"

section \<open>GraphicalReporter\<close>

record GraphicalReporter =
  g_responses :: "Value list"

definition NewGraphicalReporter :: GraphicalReporter where
  "NewGraphicalReporter = \<lparr>g_responses = []\<rparr>"

text \<open>\<^verbatim>\<open>a.timestamp.Before(b.timestamp)\<close> on two pointers: both are dereferenced.\<close>

definition ptr_Before :: "Response option \<Rightarrow> Response option \<Rightarrow> panic + bool" where
  "ptr_Before a b =
     (case deref a of Inl p \<Rightarrow> Inl p
      | Inr x \<Rightarrow> (case deref b of Inl p \<Rightarrow> Inl p
                  | Inr y \<Rightarrow> Inr (Before (timestamp x) (timestamp y))))"

definition ptr_After :: "Response option \<Rightarrow> Response option \<Rightarrow> panic + bool" where
  "ptr_After a b =
     (case deref a of Inl p \<Rightarrow> Inl p
      | Inr x \<Rightarrow> (case deref b of Inl p \<Rightarrow> Inl p
                  | Inr y \<Rightarrow> Inr (After (timestamp x) (timestamp y))))"

text \<open>
  The scan of \<^verbatim>\<open>Add\<close>, from the front: the event goes before the first element it is
  strictly before. When the loop reaches the end of the list it inserts nothing.
\<close>

fun scan :: "Response option \<Rightarrow> Value list \<Rightarrow> panic + Value list" where
  "scan res [] = Inr []"
| "scan res (e # es) =
     (case assert_Response e of Inl p \<Rightarrow> Inl p
      | Inr needle \<Rightarrow>
         (case ptr_Before res needle of Inl p \<Rightarrow> Inl p
          | Inr True \<Rightarrow> Inr (ResponsePtr res # e # es)
          | Inr False \<Rightarrow>
             (case scan res es of Inl p \<Rightarrow> Inl p | Inr es' \<Rightarrow> Inr (e # es'))))"

definition GraphicalReporter_Add ::
  "Response option \<Rightarrow> GraphicalReporter \<Rightarrow> panic + GraphicalReporter" where
  "GraphicalReporter_Add res r =
     (let l = g_responses r in
      if length l = 0 then Inr (r\<lparr>g_responses := ResponsePtr res # l\<rparr>)
      else
        (case assert_Response (last l) of Inl p \<Rightarrow> Inl p
         | Inr lastp \<Rightarrow>
            (case ptr_Before lastp res of Inl p \<Rightarrow> Inl p
             | Inr True \<Rightarrow> Inr (r\<lparr>g_responses := l @ [ResponsePtr res]\<rparr>)
             | Inr False \<Rightarrow>
                (case assert_Response (hd l) of Inl p \<Rightarrow> Inl p
                 | Inr firstp \<Rightarrow>
                    (case ptr_After firstp res of Inl p \<Rightarrow> Inl p
                     | Inr True \<Rightarrow> Inr (r\<lparr>g_responses := ResponsePtr res # l\<rparr>)
                     | Inr False \<Rightarrow>
                        (case scan res l of Inl p \<Rightarrow> Inl p
                         | Inr l' \<Rightarrow> Inr (r\<lparr>g_responses := l'\<rparr>)))))))"

text \<open>
  The loop of \<^verbatim>\<open>Report\<close>: \<open>buf\<close> grows by one line per element. \<open>String_Time\<close> is
  \<^verbatim>\<open>Time.String\<close> of the standard library, a parameter here.
\<close>

fun report_loop :: "(Time \<Rightarrow> string) \<Rightarrow> Value list \<Rightarrow> string \<Rightarrow> panic + string" where
  "report_loop String_Time [] buf = Inr buf"
| "report_loop String_Time (e # es) buf =
     (case assert_Response e of Inl p \<Rightarrow> Inl p
      | Inr rp \<Rightarrow>
         (case deref rp of Inl p \<Rightarrow> Inl p
          | Inr r \<Rightarrow> report_loop String_Time es (buf @ Sprintln (String_Time (timestamp r)))))"

definition GraphicalReporter_buf :: "(Time \<Rightarrow> string) \<Rightarrow> GraphicalReporter \<Rightarrow> panic + string" where
  "GraphicalReporter_buf String_Time r = report_loop String_Time (g_responses r) []"

text \<open>
  \<^verbatim>\<open>Report\<close> returns the error of the one \<^verbatim>\<open>Write\<close>, and the reporter as it is
  after the call.
\<close>

definition GraphicalReporter_Report ::
  "(Time \<Rightarrow> string) \<Rightarrow> Writer \<Rightarrow> GraphicalReporter \<Rightarrow> (panic + string option) \<times> GraphicalReporter" where
  "GraphicalReporter_Report String_Time out r =
     (case GraphicalReporter_buf String_Time r of
        Inl p \<Rightarrow> (Inl p, r)
      | Inr buf \<Rightarrow> (Inr (snd (out buf)), r))"

text \<open>Adding a sequence of pointers, one \<^verbatim>\<open>Add\<close> after the other; a panic stops the run.\<close>

fun add_all :: "Response option list \<Rightarrow> GraphicalReporter \<Rightarrow> panic + GraphicalReporter" where
  "add_all [] r = Inr r"
| "add_all (p # ps) r =
     (case GraphicalReporter_Add p r of Inl e \<Rightarrow> Inl e | Inr r' \<Rightarrow> add_all ps r')"

section \<open>Formatting and floating point\<close>

text \<open>\<^verbatim>\<open>%d\<close> of a non-negative integer: its decimal digits.\<close>

fun Sprintf_d :: "nat \<Rightarrow> string" where
  "Sprintf_d n =
     (if n < 10 then [''0123456789'' ! n]
      else Sprintf_d (n div 10) @ [''0123456789'' ! (n mod 10)])"

declare Sprintf_d.simps [simp del]

text \<open>\<^verbatim>\<open>%3d\<close>: the digits, padded with spaces on the left to width 3.\<close>

definition Sprintf_3d :: "nat \<Rightarrow> string" where
  "Sprintf_3d n = replicate (3 - length (Sprintf_d n)) (CHR '' '') @ Sprintf_d n"

text \<open>
  A \<^verbatim>\<open>float64\<close>: not-a-number, the infinities, or a finite value given by the rational
  it denotes. The sign of zero is not kept, and the exponent range is not bounded: the
  operands of \<^verbatim>\<open>Report\<close> are integers of at most 64 bits, whose quotients by a length stay
  far inside the range of a double.
\<close>

datatype float64 = NaN | PosInf | NegInf | Finite rat

fun bitlen :: "nat \<Rightarrow> nat" where
  "bitlen n = (if n = 0 then 0 else Suc (bitlen (n div 2)))"

declare bitlen.simps [simp del]

text \<open>For \<open>x > 0\<close>, the integer \<open>k\<close> with \<open>2 ^ k \<le> x < 2 ^ (k + 1)\<close>.\<close>

definition floor_log2 :: "rat \<Rightarrow> int" where
  "floor_log2 x =
     (if 1 \<le> x then int (bitlen (nat \<lfloor>x\<rfloor>)) - 1
      else - int (bitlen (nat (\<lceil>1 / x\<rceil> - 1))))"

definition pow2 :: "int \<Rightarrow> rat" where
  "pow2 e = (if 0 \<le> e then 2 ^ nat e else 1 / 2 ^ nat (- e))"

definition round_half_even :: "rat \<Rightarrow> int" where
  "round_half_even x =
     (let f = \<lfloor>x\<rfloor>; d = x - of_int f in
      if d < 1 / 2 then f
      else if 1 / 2 < d then f + 1
      else if even f then f else f + 1)"

text \<open>Rounding to the nearest value with a significand of 53 bits, ties to even.\<close>

definition round53 :: "rat \<Rightarrow> rat" where
  "round53 x =
     (if x = 0 then 0
      else
        (let e = floor_log2 \<bar>x\<bar> - 52;
             m = round_half_even (\<bar>x\<bar> / pow2 e)
         in sgn x * of_int m * pow2 e))"

definition float64_of_uint64 :: "64 word \<Rightarrow> float64" where
  "float64_of_uint64 w = Finite (round53 (of_nat (unat w)))"

definition float64_of_int64 :: "64 word \<Rightarrow> float64" where
  "float64_of_int64 w = Finite (round53 (of_int (sint w)))"

definition float64_of_int :: "int \<Rightarrow> float64" where
  "float64_of_int n = Finite (round53 (of_int n))"

text \<open>
  Division of doubles. It never panics: a zero divisor gives an infinity, or NaN when
  the dividend is zero too.
\<close>

fun fdiv :: "float64 \<Rightarrow> float64 \<Rightarrow> float64" where
  "fdiv (Finite a) (Finite b) =
     (if b = 0 then (if a = 0 then NaN else if 0 < a then PosInf else NegInf)
      else Finite (round53 (a / b)))"
| "fdiv (Finite a) PosInf = Finite 0"
| "fdiv (Finite a) NegInf = Finite 0"
| "fdiv PosInf (Finite b) = (if 0 \<le> b then PosInf else NegInf)"
| "fdiv NegInf (Finite b) = (if 0 \<le> b then NegInf else PosInf)"
| "fdiv _ _ = NaN"

text \<open>
  What the Go runtime and library leave open, as parameters: \<^verbatim>\<open>Duration.String\<close>, the
  verb \<^verbatim>\<open>%f\<close>, the result of converting to \<^verbatim>\<open>int64\<close> a double that \<^verbatim>\<open>int64\<close> cannot
  represent (implementation-dependent in Go), and the order in which \<^verbatim>\<open>range\<close> visits
  the keys of each of the two maps.
\<close>

record Runtime =
  String_Duration :: "64 word \<Rightarrow> string"
  Sprintf_f :: "float64 \<Rightarrow> string"
  int64_of_unrepresentable :: "float64 \<Rightarrow> 64 word"
  range_histogram :: "(64 word \<rightharpoonup> 64 word) \<Rightarrow> 64 word list"
  range_errors :: "string set \<Rightarrow> string list"

text \<open>A \<^verbatim>\<open>range\<close> over a map visits every key once, in some order.\<close>

definition range_errors_ok :: "Runtime \<Rightarrow> string set \<Rightarrow> bool" where
  "range_errors_ok rt es = (distinct (range_errors rt es) \<and> set (range_errors rt es) = es)"

text \<open>\<^verbatim>\<open>time.Duration(f)\<close>: truncation towards zero.\<close>

definition Duration_of_float64 :: "Runtime \<Rightarrow> float64 \<Rightarrow> 64 word" where
  "Duration_of_float64 rt f =
     (case f of
        Finite q \<Rightarrow>
          (let t = (if 0 \<le> q then \<lfloor>q\<rfloor> else \<lceil>q\<rceil>) in
           if - (2 ^ 63) \<le> t \<and> t < 2 ^ 63 then word_of_int t
           else int64_of_unrepresentable rt f)
      | _ \<Rightarrow> int64_of_unrepresentable rt f)"

section \<open>TextReporter\<close>

record TextReporter =
  t_responses :: "Response option list"

text \<open>\<^verbatim>\<open>make([]*Response, n)\<close>: a slice of length \<open>n\<close> whose elements are all nil.\<close>

definition NewTextReporter :: "int \<Rightarrow> panic + TextReporter" where
  "NewTextReporter n =
     (if n < 0 then Inl MakeSliceLen else Inr \<lparr>t_responses = replicate (nat n) None\<rparr>)"

definition TextReporter_Add :: "Response option \<Rightarrow> TextReporter \<Rightarrow> TextReporter" where
  "TextReporter_Add res r = r\<lparr>t_responses := t_responses r @ [res]\<rparr>"

text \<open>The local variables that the loop of \<^verbatim>\<open>Report\<close> updates.\<close>

record totals =
  totalTime :: "64 word"
  totalBytesOut :: "64 word"
  totalBytesIn :: "64 word"
  totalSuccess :: "64 word"
  histogram :: "64 word \<rightharpoonup> 64 word"
  errors :: "string set"

definition totals0 :: totals where
  "totals0 = \<lparr>totalTime = 0, totalBytesOut = 0, totalBytesIn = 0, totalSuccess = 0,
              histogram = Map.empty, errors = {}\<rparr>"

text \<open>One iteration of the loop, on a response that is not nil.\<close>

definition accumulate :: "Response \<Rightarrow> totals \<Rightarrow> totals" where
  "accumulate res a =
     \<lparr>totalTime = totalTime a + timing res,
      totalBytesOut = totalBytesOut a + bytesOut res,
      totalBytesIn = totalBytesIn a + bytesIn res,
      totalSuccess =
        (if 200 \<le> code res \<and> code res < 300 then totalSuccess a + 1 else totalSuccess a),
      histogram =
        (histogram a)(code res \<mapsto> (case histogram a (code res) of None \<Rightarrow> 0 | Some c \<Rightarrow> c) + 1),
      errors = (case err res of None \<Rightarrow> errors a | Some m \<Rightarrow> insert m (errors a))\<rparr>"

fun range_responses :: "Response option list \<Rightarrow> totals \<Rightarrow> panic + totals" where
  "range_responses [] a = Inr a"
| "range_responses (p # ps) a =
     (case deref p of Inl e \<Rightarrow> Inl e | Inr res \<Rightarrow> range_responses ps (accumulate res a))"

text \<open>The values that \<^verbatim>\<open>Report\<close> prints: the totals, the count and the four averages.\<close>

record stats = totals +
  totalRequests :: int
  avgTime :: "64 word"
  avgBytesOut :: float64
  avgBytesIn :: float64
  avgSuccess :: float64

definition TextReporter_stats :: "Runtime \<Rightarrow> TextReporter \<Rightarrow> panic + stats" where
  "TextReporter_stats rt r =
     (let n = int (length (t_responses r)) in
      case range_responses (t_responses r) totals0 of
        Inl p \<Rightarrow> Inl p
      | Inr a \<Rightarrow>
          Inr (totals.extend a
            \<lparr>totalRequests = n,
             avgTime = Duration_of_float64 rt
                         (fdiv (float64_of_int64 (totalTime a)) (float64_of_int n)),
             avgBytesOut = fdiv (float64_of_uint64 (totalBytesOut a)) (float64_of_int n),
             avgBytesIn = fdiv (float64_of_uint64 (totalBytesIn a)) (float64_of_int n),
             avgSuccess = fdiv (float64_of_uint64 (totalSuccess a)) (float64_of_int n)\<rparr>))"

text \<open>The pieces appended to \<open>buf\<close>, in the order of the source.\<close>

definition histogram_line :: "(64 word \<rightharpoonup> 64 word) \<Rightarrow> 64 word \<Rightarrow> string" where
  "histogram_line h c =
     Sprintf_3d (unat c) @ [CHR 0x09] @
     Sprintf_d (unat (case h c of None \<Rightarrow> 0 | Some n \<Rightarrow> n)) @ [CHR 0x0A]"

definition header_pieces :: "Runtime \<Rightarrow> stats \<Rightarrow> string list" where
  "header_pieces rt s =
     [Sprintln ''Results: '',
      ''Time      (avg): '' @ String_Duration rt (avgTime s) @ [CHR 0x0A],
      ''Bytes out (avg): '' @ Sprintf_f rt (avgBytesOut s) @ [CHR 0x0A],
      ''Bytes in  (avg): '' @ Sprintf_f rt (avgBytesIn s) @ [CHR 0x0A],
      ''Success ratio:   '' @ Sprintf_f rt (avgSuccess s) @ [CHR 0x0A],
      ''Requests:        '' @ Sprintf_d (nat (totalRequests s)) @ [CHR 0x0A],
      Sprintln (CHR 0x0A # ''Status codes histogram:'')]"

definition histogram_pieces :: "Runtime \<Rightarrow> stats \<Rightarrow> string list" where
  "histogram_pieces rt s = map (histogram_line (histogram s)) (range_histogram rt (histogram s))"

definition error_pieces :: "Runtime \<Rightarrow> stats \<Rightarrow> string list" where
  "error_pieces rt s = map Sprintln (range_errors rt (errors s))"

definition report_pieces :: "Runtime \<Rightarrow> stats \<Rightarrow> string list" where
  "report_pieces rt s =
     header_pieces rt s @ histogram_pieces rt s @
     [Sprintln (CHR 0x0A # ''Error set:'')] @ error_pieces rt s"

definition TextReporter_buf :: "Runtime \<Rightarrow> TextReporter \<Rightarrow> panic + string" where
  "TextReporter_buf rt r =
     (case TextReporter_stats rt r of
        Inl p \<Rightarrow> Inl p
      | Inr s \<Rightarrow> Inr (concat (report_pieces rt s)))"

definition TextReporter_Report ::
  "Runtime \<Rightarrow> Writer \<Rightarrow> TextReporter \<Rightarrow> (panic + string option) \<times> TextReporter" where
  "TextReporter_Report rt out r =
     (case TextReporter_buf rt r of
        Inl p \<Rightarrow> (Inl p, r)
      | Inr buf \<Rightarrow> (Inr (snd (out buf)), r))"

text \<open>Adding a sequence of pointers to a \<^verbatim>\<open>TextReporter\<close>, one \<^verbatim>\<open>Add\<close> after the other.\<close>

fun TextReporter_add_all :: "Response option list \<Rightarrow> TextReporter \<Rightarrow> TextReporter" where
  "TextReporter_add_all [] r = r"
| "TextReporter_add_all (p # ps) r = TextReporter_add_all ps (TextReporter_Add p r)"

text \<open>\<^verbatim>\<open>res.code >= 200 && res.code < 300\<close>.\<close>

definition success :: "Response \<Rightarrow> bool" where
  "success res = (200 \<le> code res \<and> code res < 300)"

text \<open>
  A runtime for the examples: it prints a duration as its nanoseconds and every double
  as \<open>?\<close>, and visits the keys of the maps in a fixed order.
\<close>

definition example_runtime :: Runtime where
  "example_runtime =
     \<lparr>String_Duration = (\<lambda>d. Sprintf_d (unat d)),
      Sprintf_f = (\<lambda>f. ''?''),
      int64_of_unrepresentable = (\<lambda>f. 0),
      range_histogram = (\<lambda>h. filter (\<lambda>c. h c \<noteq> None) [200, 201, 404, 500]),
      range_errors = (\<lambda>es. filter (\<lambda>m. m \<in> es) [''timeout'', ''refused''])\<rparr>"

text \<open>A sink that accepts every write: all the bytes, no error.\<close>

definition accepting_sink :: Writer where
  "accepting_sink buf = (length buf, None)"

section \<open>Events in a list, without the pointers\<close>

text \<open>
  A list element that holds a pointer to an event, and \<^verbatim>\<open>Add\<close> on a list of such
  elements, written on the events themselves. \<open>chronological\<close> is the order of the
  timestamps from front to back: no element is before an earlier one.
\<close>

definition evp :: "Response \<Rightarrow> Value" where
  "evp e = ResponsePtr (Some e)"

definition chronological :: "Response list \<Rightarrow> bool" where
  "chronological es = sorted_wrt (\<lambda>a b. \<not> Before (timestamp b) (timestamp a)) es"

fun scan_events :: "Response \<Rightarrow> Response list \<Rightarrow> Response list" where
  "scan_events e [] = []"
| "scan_events e (x # xs) =
     (if Before (timestamp e) (timestamp x) then e # x # xs else x # scan_events e xs)"

definition insert_event :: "Response \<Rightarrow> Response list \<Rightarrow> Response list" where
  "insert_event e es =
     (if es = [] then [e]
      else if Before (timestamp (last es)) (timestamp e) then es @ [e]
      else if After (timestamp (hd es)) (timestamp e) then e # es
      else scan_events e es)"

text \<open>An event at second \<open>t\<close> with status code \<open>c\<close>, for the examples.\<close>

definition event_at :: "int \<Rightarrow> 64 word \<Rightarrow> Response" where
  "event_at t c =
     \<lparr>code = c, timing = 0, bytesOut = 0, bytesIn = 0,
      timestamp = \<lparr>sec = t, nsec = 0, loc = ''UTC''\<rparr>, err = None\<rparr>"

section \<open>Properties of GraphicalReporter\<close>

lemma After_Before: "After t u = Before u t"
  by (auto simp: After_def Before_def)

lemma not_Before_trans:
  "\<not> Before b a \<Longrightarrow> \<not> Before c b \<Longrightarrow> \<not> Before c a"
  by (auto simp: Before_def)

lemma Before_trans: "Before a b \<Longrightarrow> Before b c \<Longrightarrow> Before a c"
  by (auto simp: Before_def)

lemma Before_not_sym: "Before a b \<Longrightarrow> \<not> Before b a"
  by (auto simp: Before_def)

lemma scan_evp:
  "scan (Some e) (map evp es) = Inr (map evp (scan_events e es))"
  by (induction es) (simp_all add: evp_def assert_Response_def ptr_Before_def deref_def)

lemma Add_evp:
  "GraphicalReporter_Add (Some e) \<lparr>g_responses = map evp es\<rparr> =
     Inr \<lparr>g_responses = map evp (insert_event e es)\<rparr>"
proof (cases es)
  case Nil
  then show ?thesis
    by (simp add: GraphicalReporter_Add_def insert_event_def evp_def)
next
  case (Cons x xs)
  then have ne: "es \<noteq> []" by simp
  have l: "last (map evp es) = evp (last es)" using ne by (simp add: last_map)
  have h: "hd (map evp es) = evp (hd es)" using ne by (simp add: hd_map)
  show ?thesis
    unfolding GraphicalReporter_Add_def Let_def
    using ne
    by (simp add: l h scan_evp insert_event_def ptr_Before_def ptr_After_def deref_def
        assert_Response_def evp_def[of "last es"] evp_def[of "hd es"])
       (simp add: evp_def)
qed

lemma set_scan_events: "set (scan_events e es) \<subseteq> insert e (set es)"
  by (induction es) auto

lemma scan_events_chronological:
  "chronological es \<Longrightarrow> chronological (scan_events e es)"
  unfolding chronological_def
proof (induction es)
  case Nil
  then show ?case by simp
next
  case (Cons x xs)
  show ?case
  proof (cases "Before (timestamp e) (timestamp x)")
    case True
    then have "\<forall>y\<in>set (x # xs). \<not> Before (timestamp y) (timestamp e)"
      using Cons.prems by (auto dest: Before_not_sym Before_trans not_Before_trans)
    then show ?thesis using True Cons.prems by simp
  next
    case False
    have "\<forall>y\<in>set (scan_events e xs). \<not> Before (timestamp y) (timestamp x)"
      using set_scan_events[of e xs] Cons.prems False by auto
    then show ?thesis using False Cons by simp
  qed
qed

lemma insert_event_chronological:
  assumes "chronological es"
  shows "chronological (insert_event e es)"
proof -
  have app: "chronological (es @ [e])" if "es \<noteq> []" "Before (timestamp (last es)) (timestamp e)"
  proof -
    have "\<not> Before (timestamp e) (timestamp y)" if "y \<in> set es" for y
    proof -
      have "\<not> Before (timestamp (last es)) (timestamp y)"
      proof (cases "y = last es")
        case True then show ?thesis by (simp add: Before_def)
      next
        case False
        then have "y \<in> set (butlast es)" using that \<open>es \<noteq> []\<close>
          by (metis append_butlast_last_id in_set_conv_decomp rotate1.simps(2) set_ConsD set_rotate1)
        moreover have "sorted_wrt (\<lambda>a b. \<not> Before (timestamp b) (timestamp a)) (butlast es @ [last es])"
          using assms \<open>es \<noteq> []\<close> by (simp add: chronological_def)
        ultimately show ?thesis by (simp add: sorted_wrt_append)
      qed
      then show ?thesis using \<open>Before (timestamp (last es)) (timestamp e)\<close>
        by (auto simp: Before_def)
    qed
    then show ?thesis using assms by (simp add: chronological_def sorted_wrt_append)
  qed
  have pre: "chronological (e # es)" if "es \<noteq> []" "After (timestamp (hd es)) (timestamp e)"
  proof -
    have "\<not> Before (timestamp y) (timestamp e)" if "y \<in> set es" for y
    proof -
      have "\<not> Before (timestamp y) (timestamp (hd es))"
        using assms that \<open>es \<noteq> []\<close> by (cases es) (auto simp: chronological_def Before_def)
      then show ?thesis using \<open>After (timestamp (hd es)) (timestamp e)\<close>
        by (auto simp: Before_def After_def)
    qed
    then show ?thesis using assms by (simp add: chronological_def)
  qed
  show ?thesis
    using app pre assms scan_events_chronological[OF assms, of e]
    by (auto simp: insert_event_def chronological_def)
qed

lemma report_loop_evp:
  "report_loop f (map evp es) buf =
     Inr (buf @ concat (map (\<lambda>e. Sprintln (f (timestamp e))) es))"
  by (induction es arbitrary: buf) (simp_all add: evp_def assert_Response_def deref_def)

lemma add_all_evp:
  "\<exists>es'. add_all (map Some es) \<lparr>g_responses = map evp es0\<rparr> = Inr \<lparr>g_responses = map evp es'\<rparr> \<and>
         (chronological es0 \<longrightarrow> chronological es') \<and> set es' \<subseteq> set es0 \<union> set es"
proof (induction es arbitrary: es0)
  case Nil
  then show ?case by auto
next
  case (Cons e es)
  obtain es' where 1: "add_all (map Some es) \<lparr>g_responses = map evp (insert_event e es0)\<rparr>
       = Inr \<lparr>g_responses = map evp es'\<rparr>"
    and 2: "chronological (insert_event e es0) \<longrightarrow> chronological es'"
    and 3: "set es' \<subseteq> set (insert_event e es0) \<union> set es"
    using Cons.IH[of "insert_event e es0"] by blast
  have "set (insert_event e es0) \<subseteq> insert e (set es0)"
    using set_scan_events[of e es0] by (auto simp: insert_event_def)
  then show ?case using 1 2 3 insert_event_chronological[of es0 e]
    by (auto simp: Add_evp)
qed

lemma scan_no_OtherValue:
  "OtherValue \<notin> set l \<Longrightarrow>
     scan res l \<noteq> Inl TypeAssertion \<and> (\<forall>l'. scan res l = Inr l' \<longrightarrow> OtherValue \<notin> set l')"
proof (induction l)
  case Nil
  then show ?case by simp
next
  case (Cons v l)
  then obtain p where v: "v = ResponsePtr p" by (cases v) auto
  show ?case using Cons
    by (auto simp: v assert_Response_def ptr_Before_def deref_def
        split: sum.splits bool.splits option.splits)
qed

lemma Add_no_OtherValue:
  assumes "OtherValue \<notin> set (g_responses r)"
  shows "GraphicalReporter_Add res r \<noteq> Inl TypeAssertion \<and>
         (\<forall>r'. GraphicalReporter_Add res r = Inr r' \<longrightarrow> OtherValue \<notin> set (g_responses r'))"
proof (cases "g_responses r = []")
  case True
  then show ?thesis by (simp add: GraphicalReporter_Add_def)
next
  case False
  then have "last (g_responses r) \<noteq> OtherValue" "hd (g_responses r) \<noteq> OtherValue"
    using assms by (metis last_in_set, metis hd_in_set)
  then obtain p q where pq: "last (g_responses r) = ResponsePtr p" "hd (g_responses r) = ResponsePtr q"
    by (metis Value.exhaust)
  show ?thesis
    using False assms scan_no_OtherValue[OF assms, of res]
    by (auto simp: GraphicalReporter_Add_def Let_def pq assert_Response_def ptr_Before_def
        ptr_After_def deref_def split: sum.splits bool.splits option.splits)
qed

lemma add_all_no_OtherValue:
  "OtherValue \<notin> set (g_responses r) \<Longrightarrow>
     add_all ps r \<noteq> Inl TypeAssertion \<and>
     (\<forall>r'. add_all ps r = Inr r' \<longrightarrow> OtherValue \<notin> set (g_responses r'))"
proof (induction ps arbitrary: r)
  case Nil
  then show ?case by simp
next
  case (Cons p ps)
  show ?case
  proof (cases "GraphicalReporter_Add p r")
    case (Inl e)
    then show ?thesis using Add_no_OtherValue[OF Cons.prems, of p] by auto
  next
    case (Inr r1)
    then have "OtherValue \<notin> set (g_responses r1)"
      using Add_no_OtherValue[OF Cons.prems, of p] by auto
    from Cons.IH[OF this] show ?thesis using Inr by simp
  qed
qed

lemma report_loop_no_OtherValue:
  "OtherValue \<notin> set l \<Longrightarrow> report_loop f l buf \<noteq> Inl TypeAssertion"
proof (induction l arbitrary: buf)
  case Nil
  then show ?case by simp
next
  case (Cons v l)
  then obtain p where v: "v = ResponsePtr p" by (cases v) auto
  show ?case using Cons
    by (auto simp: v assert_Response_def deref_def split: option.splits)
qed

lemma scan_events_position:
  "\<exists>x\<in>set es. Before (timestamp e) (timestamp x) \<Longrightarrow>
     scan_events e es =
       takeWhile (\<lambda>x. \<not> Before (timestamp e) (timestamp x)) es @
       e # dropWhile (\<lambda>x. \<not> Before (timestamp e) (timestamp x)) es"
  by (induction es) auto

lemma scan_events_none:
  "\<forall>x\<in>set es. \<not> Before (timestamp e) (timestamp x) \<Longrightarrow> scan_events e es = es"
  by (induction es) auto

lemma chronological_last:
  assumes "chronological es" "x \<in> set es"
  shows "\<not> Before (timestamp (last es)) (timestamp x)"
proof -
  from assms(2) have ne: "es \<noteq> []" by auto
  show ?thesis
  proof (cases "x = last es")
    case True
    then show ?thesis by (simp add: Before_def)
  next
    case False
    have "set es = insert (last es) (set (butlast es))"
      using ne by (metis append_butlast_last_id list.simps(15) rotate1.simps(2) set_rotate1)
    then have "x \<in> set (butlast es)" using False assms(2) by auto
    moreover have "sorted_wrt (\<lambda>a b. \<not> Before (timestamp b) (timestamp a)) (butlast es @ [last es])"
      using assms(1) ne by (simp add: chronological_def)
    ultimately show ?thesis by (simp add: sorted_wrt_append)
  qed
qed

lemma insert_event_dropped:
  assumes "chronological es" "es \<noteq> []"
    and "\<not> Before (timestamp (last es)) (timestamp e)"
    and "\<not> Before (timestamp e) (timestamp (last es))"
  shows "insert_event e es = es"
proof -
  have "\<not> Before (timestamp e) (timestamp x)" if "x \<in> set es" for x
    using chronological_last[OF assms(1) that] assms(4) by (auto simp: Before_def)
  then have "scan_events e es = es" "\<not> After (timestamp (hd es)) (timestamp e)"
    using assms(2) by (simp_all add: scan_events_none After_Before)
  then show ?thesis using assms(2,3) by (simp add: insert_event_def)
qed

lemma insert_event_position:
  assumes "chronological es" "x \<in> set es" "Before (timestamp e) (timestamp x)"
  shows "insert_event e es =
           takeWhile (\<lambda>x. \<not> Before (timestamp e) (timestamp x)) es @
           e # dropWhile (\<lambda>x. \<not> Before (timestamp e) (timestamp x)) es"
proof -
  from assms(2) have ne: "es \<noteq> []" by auto
  have nl: "\<not> Before (timestamp (last es)) (timestamp e)"
    using chronological_last[OF assms(1,2)] assms(3) by (auto simp: Before_def)
  show ?thesis
  proof (cases "After (timestamp (hd es)) (timestamp e)")
    case True
    then have "takeWhile (\<lambda>x. \<not> Before (timestamp e) (timestamp x)) es = []"
      "dropWhile (\<lambda>x. \<not> Before (timestamp e) (timestamp x)) es = es"
      using ne by (cases es; simp add: After_Before)+
    then show ?thesis using True ne nl by (simp add: insert_event_def)
  next
    case False
    then show ?thesis using ne nl assms(2,3)
      by (simp add: insert_event_def) (rule scan_events_position, blast)
  qed
qed

text \<open>
  Claim C1. \<^verbatim>\<open>Add\<close> is to insert every event and \<^verbatim>\<open>Report\<close> to print one line
  per added event, in non-decreasing order of timestamp. The code keeps the order
  (\<open>insert_event_chronological\<close>, \<open>add_all_evp\<close>) and never panics on events, but it
  loses an event whose instant is the one of the last element: the test for the end of
  the list is a strict \<^verbatim>\<open>Before\<close>, the test for the front a strict \<^verbatim>\<open>After\<close>, and
  the scan finds no element strictly after the event. Two events at the same instant,
  added to a new reporter, leave one element and one printed line.
\<close>

theorem Add_drops_event_at_tail_instant:
  "add_all [Some (event_at 1 200), Some (event_at 1 404)] NewGraphicalReporter =
     Inr \<lparr>g_responses = [evp (event_at 1 200)]\<rparr> \<and>
   GraphicalReporter_buf String_Time \<lparr>g_responses = [evp (event_at 1 200)]\<rparr> =
     Inr (Sprintln (String_Time (timestamp (event_at 1 200))))"
  by (simp add: NewGraphicalReporter_def GraphicalReporter_Add_def GraphicalReporter_buf_def
      assert_Response_def ptr_Before_def ptr_After_def deref_def Before_def After_def
      evp_def event_at_def)

text \<open>
  Claim C3. An event whose timestamp equals the one of stored events is to go after all
  of them. Where a later element exists, the code does that
  (\<open>insert_event_position\<close>: the event lands after every element that is not strictly
  after it). Where the equal elements are at the end of the list, the event is not
  inserted at all (\<open>insert_event_dropped\<close>): adding an event at second 2 to the
  elements at seconds 1 and 2 returns the list as it was.
\<close>

theorem Add_equal_to_tail_not_inserted:
  "GraphicalReporter_Add (Some (event_at 2 404))
     \<lparr>g_responses = [evp (event_at 1 200), evp (event_at 2 200)]\<rparr> =
   Inr \<lparr>g_responses = [evp (event_at 1 200), evp (event_at 2 200)]\<rparr> \<and>
   evp (event_at 2 404) \<notin> set [evp (event_at 1 200), evp (event_at 2 200)] \<and>
   add_all [Some (event_at 1 200), Some (event_at 2 200)] NewGraphicalReporter =
     Inr \<lparr>g_responses = [evp (event_at 1 200), evp (event_at 2 200)]\<rparr>"
  by (simp add: NewGraphicalReporter_def GraphicalReporter_Add_def
      assert_Response_def ptr_Before_def ptr_After_def deref_def Before_def After_def
      evp_def event_at_def)

text \<open>
  Claim C10. Every element of the list of a reporter built from
  \<^verbatim>\<open>NewGraphicalReporter\<close> by \<^verbatim>\<open>Add\<close> holds a \<^verbatim>\<open>*Response\<close>. For events
  \<open>es\<close> (pointers that are not nil) every \<^verbatim>\<open>Add\<close> returns, the elements are
  exactly pointers to events, and a further \<^verbatim>\<open>Add\<close> and the loop of \<^verbatim>\<open>Report\<close>
  return without a panic. For arbitrary pointers \<open>ps\<close>, nil included, no type
  assertion fails, in \<^verbatim>\<open>Add\<close> or in \<^verbatim>\<open>Report\<close>.
\<close>

theorem Graphical_assertions_succeed:
  "(\<exists>es'. add_all (map Some es) NewGraphicalReporter = Inr \<lparr>g_responses = map evp es'\<rparr> \<and>
      (\<exists>r'. GraphicalReporter_Add (Some e) \<lparr>g_responses = map evp es'\<rparr> = Inr r') \<and>
      (\<exists>buf. GraphicalReporter_buf String_Time \<lparr>g_responses = map evp es'\<rparr> = Inr buf)) \<and>
   add_all ps NewGraphicalReporter \<noteq> Inl TypeAssertion \<and>
   (\<forall>r. add_all ps NewGraphicalReporter = Inr r \<longrightarrow>
      OtherValue \<notin> set (g_responses r) \<and>
      GraphicalReporter_Add p r \<noteq> Inl TypeAssertion \<and>
      GraphicalReporter_buf String_Time r \<noteq> Inl TypeAssertion)"
proof -
  have new: "NewGraphicalReporter = \<lparr>g_responses = map evp []\<rparr>"
    by (simp add: NewGraphicalReporter_def)
  obtain es' where "add_all (map Some es) NewGraphicalReporter = Inr \<lparr>g_responses = map evp es'\<rparr>"
    using add_all_evp[of es "[]"] unfolding new by blast
  then have 1: "\<exists>es'. add_all (map Some es) NewGraphicalReporter = Inr \<lparr>g_responses = map evp es'\<rparr> \<and>
      (\<exists>r'. GraphicalReporter_Add (Some e) \<lparr>g_responses = map evp es'\<rparr> = Inr r') \<and>
      (\<exists>buf. GraphicalReporter_buf String_Time \<lparr>g_responses = map evp es'\<rparr> = Inr buf)"
    by (auto simp: Add_evp GraphicalReporter_buf_def report_loop_evp)
  have inv: "OtherValue \<notin> set (g_responses NewGraphicalReporter)"
    by (simp add: NewGraphicalReporter_def)
  have 2: "add_all ps NewGraphicalReporter \<noteq> Inl TypeAssertion"
    using add_all_no_OtherValue[OF inv, of ps] by simp
  have 3: "OtherValue \<notin> set (g_responses r) \<and>
      GraphicalReporter_Add p r \<noteq> Inl TypeAssertion \<and>
      GraphicalReporter_buf String_Time r \<noteq> Inl TypeAssertion"
    if "add_all ps NewGraphicalReporter = Inr r" for r
  proof -
    have "OtherValue \<notin> set (g_responses r)"
      using add_all_no_OtherValue[OF inv, of ps] that by simp
    then show ?thesis
      using Add_no_OtherValue[of r p] report_loop_no_OtherValue[of "g_responses r" String_Time "[]"]
      by (simp add: GraphicalReporter_buf_def)
  qed
  from 1 2 3 show ?thesis by blast
qed

theorem Graphical_assertions_succeed_witness:
  "add_all [None] NewGraphicalReporter = Inr \<lparr>g_responses = [ResponsePtr None]\<rparr> \<and>
   OtherValue \<notin> set (g_responses \<lparr>g_responses = [ResponsePtr None]\<rparr>) \<and>
   GraphicalReporter_Add None \<lparr>g_responses = [ResponsePtr None]\<rparr> \<noteq> Inl TypeAssertion \<and>
   GraphicalReporter_buf loc \<lparr>g_responses = [ResponsePtr None]\<rparr> \<noteq> Inl TypeAssertion"
proof -
  have e: "add_all [None] NewGraphicalReporter = Inr \<lparr>g_responses = [ResponsePtr None]\<rparr>"
    by (simp add: NewGraphicalReporter_def GraphicalReporter_Add_def)
  show ?thesis
    using e Graphical_assertions_succeed[of "[]" "event_at 1 200" loc "[None]" None]
    by simp
qed

section \<open>Properties of TextReporter\<close>

lemma t_responses_add_all:
  "t_responses (TextReporter_add_all ps r) = t_responses r @ ps"
  by (induction ps arbitrary: r) (simp_all add: TextReporter_Add_def)

lemma range_responses_Some:
  "range_responses (map Some rs) a = Inr (fold accumulate rs a)"
  by (induction rs arbitrary: a) (simp_all add: deref_def)

lemma range_responses_None:
  "None \<in> set ps \<Longrightarrow> range_responses ps a = Inl NilDereference"
  by (induction ps arbitrary: a) (auto simp: deref_def split: option.splits)

lemma range_responses_fold:
  "range_responses ps a =
     (if None \<in> set ps then Inl NilDereference else Inr (fold accumulate (map the ps) a))"
proof (cases "None \<in> set ps")
  case True
  then show ?thesis by (simp add: range_responses_None)
next
  case False
  then have "map Some (map the ps) = ps" by (induction ps) auto
  then show ?thesis using False range_responses_Some[of "map the ps" a] by simp
qed

lemma accumulate_commute:
  "accumulate x (accumulate y a) = accumulate y (accumulate x a)"
  by (cases "code x = code y")
     (auto simp: accumulate_def fun_upd_twist split: option.splits)

lemma fold_accumulate_mset:
  assumes "mset xs = mset ys"
  shows "fold accumulate xs = fold accumulate ys"
  by (rule fold_multiset_equiv[OF _ assms]) (auto simp: accumulate_commute fun_eq_iff)

lemma totalSuccess_fold:
  "totalSuccess (fold accumulate rs a) = totalSuccess a + of_nat (length (filter success rs))"
  by (induction rs arbitrary: a) (simp_all add: accumulate_def success_def)

lemma errors_fold:
  "errors (fold accumulate rs a) = errors a \<union> {m. \<exists>res\<in>set rs. err res = Some m}"
  by (induction rs arbitrary: a) (auto simp: accumulate_def split: option.splits)

lemma range_responses_mset:
  assumes "mset ps = mset qs"
  shows "range_responses ps a = range_responses qs a"
proof -
  have "set ps = set qs" using assms by (rule mset_eq_setD)
  moreover have "mset (map the ps) = mset (map the qs)" using assms by simp
  then have "fold accumulate (map the ps) = fold accumulate (map the qs)"
    by (rule fold_accumulate_mset)
  ultimately show ?thesis
    by (simp add: range_responses_fold)
qed

text \<open>
  Claim C5. Adding two permutations of the same events to a reporter gives the same
  values in \<^verbatim>\<open>Report\<close>: the four averages, the count of requests, the histogram (as
  a map, hence as a set of pairs of code and count) and the set of errors. The sums
  wrap around at 64 bits, which does not depend on the order. A nil pointer among the
  events makes both reports panic.
\<close>

theorem Report_order_independent:
  assumes "mset ps = mset qs"
  shows "TextReporter_stats rt (TextReporter_add_all ps r) =
         TextReporter_stats rt (TextReporter_add_all qs r)"
proof -
  have "mset (t_responses r @ ps) = mset (t_responses r @ qs)" using assms by simp
  then have "range_responses (t_responses r @ ps) totals0 = range_responses (t_responses r @ qs) totals0"
    by (rule range_responses_mset)
  moreover have "length ps = length qs" using assms by (rule mset_eq_length)
  ultimately show ?thesis
    by (simp add: TextReporter_stats_def t_responses_add_all)
qed

lemma bitlen_0: "bitlen 0 = 0"
  by (simp add: bitlen.simps)

lemma bitlen_pos: "0 < n \<Longrightarrow> bitlen n = Suc (bitlen (n div 2))"
  by (subst bitlen.simps) simp

text \<open>
  The exponent that \<open>round53\<close> takes is the one of the binade of its argument:
  \<open>floor_log2\<close> is the floor of the binary logarithm.
\<close>

lemma bitlen_bounds:
  "0 < n \<Longrightarrow> 2 ^ (bitlen n - 1) \<le> n \<and> n < 2 ^ bitlen n"
proof (induction n rule: bitlen.induct)
  case (1 n)
  show ?case
  proof (cases "n div 2 = 0")
    case True
    then have "n = 1" using "1.prems" by auto
    then show ?thesis by (simp add: bitlen_pos bitlen_0)
  next
    case False
    then have pos: "0 < n div 2" by simp
    from "1.IH"[OF _ pos] "1.prems"
    have ih: "2 ^ (bitlen (n div 2) - 1) \<le> n div 2" "n div 2 < 2 ^ bitlen (n div 2)"
      by auto
    have bl: "bitlen n = Suc (bitlen (n div 2))" using "1.prems" by (rule bitlen_pos)
    have b1: "0 < bitlen (n div 2)" using pos by (simp add: bitlen_pos)
    have "2 ^ (bitlen n - 1) = 2 * 2 ^ (bitlen (n div 2) - 1)"
      using b1 by (simp add: bl flip: power_Suc)
    also have "\<dots> \<le> 2 * (n div 2)" using ih(1) by simp
    also have "\<dots> \<le> n" by simp
    finally have lo: "2 ^ (bitlen n - 1) \<le> n" .
    have "n < 2 * (n div 2) + 2" by presburger
    also have "\<dots> \<le> 2 * 2 ^ bitlen (n div 2)" using ih(2) by simp
    finally have "n < 2 ^ bitlen n" by (simp add: bl)
    with lo show ?thesis by simp
  qed
qed

lemma floor_log2_bounds:
  assumes "0 < x"
  shows "pow2 (floor_log2 x) \<le> x \<and> x < pow2 (floor_log2 x + 1)"
proof (cases "1 \<le> x")
  case True
  define n where "n = nat \<lfloor>x\<rfloor>"
  have n: "0 < n" "of_nat n \<le> x" "x < of_nat n + 1"
    using True by (simp_all add: n_def, linarith+)
  have k: "floor_log2 x = int (bitlen n) - 1" using True by (simp add: floor_log2_def n_def)
  have bp: "0 < bitlen n" using n(1) by (simp add: bitlen_pos)
  from bitlen_bounds[OF n(1)] have b: "2 ^ (bitlen n - 1) \<le> n" "Suc n \<le> 2 ^ bitlen n" by auto
  have "pow2 (floor_log2 x) = 2 ^ (bitlen n - 1)"
    using bp by (simp add: k pow2_def nat_diff_distrib')
  also have "\<dots> \<le> of_nat n" using b(1) by (metis of_nat_le_iff of_nat_numeral of_nat_power)
  finally have lo: "pow2 (floor_log2 x) \<le> x" using n(2) by simp
  have "x < of_nat (Suc n)" using n(3) by simp
  also have "\<dots> \<le> 2 ^ bitlen n" using b(2) by (metis of_nat_le_iff of_nat_numeral of_nat_power)
  also have "\<dots> = pow2 (floor_log2 x + 1)" by (simp add: k pow2_def)
  finally show ?thesis using lo by simp
next
  case False
  define c where "c = nat (\<lceil>1 / x\<rceil> - 1)"
  have y: "1 < 1 / x" using False assms by simp
  then have c2: "2 \<le> \<lceil>1 / x\<rceil>" by linarith
  then have c: "0 < c" "of_nat c < 1 / x" "1 / x \<le> of_nat c + 1"
    by (simp_all add: c_def, linarith+)
  have k: "floor_log2 x = - int (bitlen c)" using False by (simp add: floor_log2_def c_def)
  have bp: "0 < bitlen c" using c(1) by (simp add: bitlen_pos)
  from bitlen_bounds[OF c(1)] have b: "2 ^ (bitlen c - 1) \<le> c" "Suc c \<le> 2 ^ bitlen c" by auto
  have "1 / x \<le> of_nat (Suc c)" using c(3) by simp
  also have "\<dots> \<le> 2 ^ bitlen c" using b(2) by (metis of_nat_le_iff of_nat_numeral of_nat_power)
  finally have "1 / 2 ^ bitlen c \<le> x" using assms
    by (simp add: field_simps)
  then have lo: "pow2 (floor_log2 x) \<le> x" using bp by (simp add: k pow2_def)
  have "(2::rat) ^ (bitlen c - 1) \<le> of_nat c"
    using b(1) by (metis of_nat_le_iff of_nat_numeral of_nat_power)
  also have "\<dots> < 1 / x" by (rule c(2))
  finally have "x < 1 / 2 ^ (bitlen c - 1)" using assms by (simp add: field_simps)
  moreover have "pow2 (floor_log2 x + 1) = 1 / 2 ^ (bitlen c - 1)"
    using bp by (auto simp: k pow2_def nat_diff_distrib')
  ultimately show ?thesis using lo by simp
qed

lemma round53_0: "round53 0 = 0"
  by (simp add: round53_def)

lemma round53_2: "round53 2 = 2"
  by (simp add: round53_def floor_log2_def pow2_def round_half_even_def bitlen_pos bitlen_0 Let_def)

lemma round53_4: "round53 4 = 4"
  by (simp add: round53_def floor_log2_def pow2_def round_half_even_def bitlen_pos bitlen_0 Let_def)

lemma round53_half: "round53 (1 / 2) = 1 / 2"
  by (simp add: round53_def floor_log2_def pow2_def round_half_even_def bitlen_pos bitlen_0 Let_def)

lemma fdiv_2_4: "fdiv (float64_of_uint64 2) (float64_of_int 4) = Finite (1 / 2)"
  by (simp add: float64_of_uint64_def float64_of_int_def round53_2 round53_4 round53_half)

lemma stats_events:
  "TextReporter_stats rt \<lparr>t_responses = map Some rs\<rparr> =
     Inr (totals.extend (fold accumulate rs totals0)
       \<lparr>totalRequests = int (length rs),
        avgTime = Duration_of_float64 rt
          (fdiv (float64_of_int64 (totalTime (fold accumulate rs totals0)))
                (float64_of_int (int (length rs)))),
        avgBytesOut = fdiv (float64_of_uint64 (totalBytesOut (fold accumulate rs totals0)))
                (float64_of_int (int (length rs))),
        avgBytesIn = fdiv (float64_of_uint64 (totalBytesIn (fold accumulate rs totals0)))
                (float64_of_int (int (length rs))),
        avgSuccess = fdiv (float64_of_uint64 (totalSuccess (fold accumulate rs totals0)))
                (float64_of_int (int (length rs)))\<rparr>)"
  by (simp add: TextReporter_stats_def Let_def range_responses_Some)

theorem Report_order_independent_witness:
  "mset [Some (event_at 1 200), Some (event_at 2 404)] =
     mset [Some (event_at 2 404), Some (event_at 1 200)] \<and>
   TextReporter_stats example_runtime
     (TextReporter_add_all [Some (event_at 1 200), Some (event_at 2 404)] \<lparr>t_responses = []\<rparr>) =
   TextReporter_stats example_runtime
     (TextReporter_add_all [Some (event_at 2 404), Some (event_at 1 200)] \<lparr>t_responses = []\<rparr>)"
proof -
  have h: "mset [Some (event_at 1 200), Some (event_at 2 404)] =
     mset [Some (event_at 2 404), Some (event_at 1 200)]"
    by (simp add: add_mset_commute)
  show ?thesis
    using h Report_order_independent[OF h, of example_runtime "\<lparr>t_responses = []\<rparr>"]
    by blast
qed

text \<open>
  Claim C2. A reporter from \<^verbatim>\<open>NewTextReporter(n)\<close> is to start empty and to report
  \<^verbatim>\<open>Requests: 0\<close>. \<^verbatim>\<open>make([]*Response, n)\<close> gives a slice of length \<open>n\<close>, not
  an empty slice of capacity \<open>n\<close>: for \<open>n = 1\<close> the reporter holds one nil pointer
  and \<^verbatim>\<open>Report\<close> panics on \<^verbatim>\<open>res.code\<close> before it writes anything.
\<close>

theorem NewTextReporter_presized_panics:
  "NewTextReporter 1 = Inr \<lparr>t_responses = [None]\<rparr> \<and>
   length (t_responses \<lparr>t_responses = [None]\<rparr>) = 1 \<and>
   TextReporter_Report rt out \<lparr>t_responses = [None]\<rparr> =
     (Inl NilDereference, \<lparr>t_responses = [None]\<rparr>)"
  by (simp add: NewTextReporter_def TextReporter_Report_def TextReporter_buf_def
      TextReporter_stats_def Let_def deref_def)

text \<open>
  Claim C4, amended. The claim is for every reporter with zero added events and for all
  four averages. It holds of the reporter that has no stored responses, the one that
  \<^verbatim>\<open>NewTextReporter(0)\<close> builds, and of three averages: there \<^verbatim>\<open>Report\<close> does not
  panic, each of the four quotients is \<open>0 / 0\<close> on doubles, which is NaN, and the
  averages of bytes out, of bytes in and of success are that NaN. The time average is
  not: the code converts the quotient to a \<^verbatim>\<open>time.Duration\<close>, an \<^verbatim>\<open>int64\<close>, and
  the conversion of NaN gives a number that the implementation chooses. The text
  written contains the line \<^verbatim>\<open>Requests:        0\<close>, and the result is the error of
  the sink's \<^verbatim>\<open>Write\<close>: none for a sink that accepts the write. What \<^verbatim>\<open>Report\<close> does
  on a reporter built with a positive size is left out here.
\<close>

theorem Report_no_responses:
  "NewTextReporter 0 = Inr \<lparr>t_responses = []\<rparr> \<and>
   (\<exists>s. TextReporter_stats rt \<lparr>t_responses = []\<rparr> = Inr s \<and>
      totalRequests s = 0 \<and>
      fdiv (float64_of_int64 (totalTime s)) (float64_of_int (totalRequests s)) = NaN \<and>
      avgTime s = Duration_of_float64 rt NaN \<and>
      Duration_of_float64 rt NaN = int64_of_unrepresentable rt NaN \<and>
      avgBytesOut s = NaN \<and> avgBytesIn s = NaN \<and> avgSuccess s = NaN \<and>
      (\<exists>pre post.
         concat (report_pieces rt s) =
           pre @ [CHR 0x0A] @ ''Requests:        0'' @ [CHR 0x0A] @ post \<and>
         TextReporter_Report rt out \<lparr>t_responses = []\<rparr> =
           (Inr (snd (out (concat (report_pieces rt s)))), \<lparr>t_responses = []\<rparr>)) \<and>
      TextReporter_Report rt accepting_sink \<lparr>t_responses = []\<rparr> =
        (Inr None, \<lparr>t_responses = []\<rparr>))"
proof -
  let ?r = "\<lparr>t_responses = []\<rparr>"
  obtain s where s: "TextReporter_stats rt ?r = Inr s"
    by (simp add: TextReporter_stats_def Let_def)
  have n: "totalRequests s = 0" and t: "totalTime s = 0"
    and avg: "avgBytesOut s = NaN" "avgBytesIn s = NaN" "avgSuccess s = NaN"
    and at: "avgTime s = Duration_of_float64 rt NaN"
    using s by (auto simp: TextReporter_stats_def Let_def totals.defs totals0_def float64_of_int_def
        float64_of_uint64_def float64_of_int64_def round53_0)
  have conv: "Duration_of_float64 rt NaN = int64_of_unrepresentable rt NaN"
    by (simp add: Duration_of_float64_def)
  have q: "fdiv (float64_of_int64 (totalTime s)) (float64_of_int (totalRequests s)) = NaN"
    by (simp add: n t float64_of_int_def float64_of_int64_def round53_0)
  have d0: "Sprintf_d 0 = ''0''" by (simp add: Sprintf_d.simps)
  have pieces: "concat (report_pieces rt s) =
      (Sprintln ''Results: '' @
       ''Time      (avg): '' @ String_Duration rt (avgTime s) @ [CHR 0x0A] @
       ''Bytes out (avg): '' @ Sprintf_f rt (avgBytesOut s) @ [CHR 0x0A] @
       ''Bytes in  (avg): '' @ Sprintf_f rt (avgBytesIn s) @ [CHR 0x0A] @
       ''Success ratio:   '' @ Sprintf_f rt (avgSuccess s)) @ [CHR 0x0A] @
       ''Requests:        0'' @ [CHR 0x0A] @
      (Sprintln (CHR 0x0A # ''Status codes histogram:'') @
       concat (histogram_pieces rt s) @ Sprintln (CHR 0x0A # ''Error set:'') @
       concat (error_pieces rt s))"
    by (simp add: report_pieces_def header_pieces_def n d0)
  have rep: "TextReporter_Report rt w ?r = (Inr (snd (w (concat (report_pieces rt s)))), ?r)" for w
    by (simp add: TextReporter_Report_def TextReporter_buf_def s)
  have ex: "\<exists>pre post.
         concat (report_pieces rt s) =
           pre @ [CHR 0x0A] @ ''Requests:        0'' @ [CHR 0x0A] @ post \<and>
         TextReporter_Report rt out ?r =
           (Inr (snd (out (concat (report_pieces rt s)))), ?r)"
    by (intro exI conjI) (rule pieces, rule rep)
  have acc: "TextReporter_Report rt accepting_sink ?r = (Inr None, ?r)"
    by (simp add: rep accepting_sink_def)
  have new: "NewTextReporter 0 = Inr ?r" by (simp add: NewTextReporter_def)
  from new s n q at conv avg ex acc show ?thesis by blast
qed

text \<open>
  The claim as it is written fails twice. A reporter built with size 2 has zero added
  events and \<^verbatim>\<open>Report\<close> panics on its first nil element, with a sink that accepts
  every write. And on the reporter without responses the time average is a number: with
  the runtime of the examples, which converts NaN to 0, the second line of the text is
  \<^verbatim>\<open>Time      (avg): 0\<close>, next to the three averages that are NaN.
\<close>

theorem Report_zero_events_counterexample:
  "NewTextReporter 2 = Inr \<lparr>t_responses = [None, None]\<rparr> \<and>
   TextReporter_Report example_runtime accepting_sink \<lparr>t_responses = [None, None]\<rparr> =
     (Inl NilDereference, \<lparr>t_responses = [None, None]\<rparr>) \<and>
   NewTextReporter 0 = Inr \<lparr>t_responses = []\<rparr> \<and>
   map_sum id avgTime (TextReporter_stats example_runtime \<lparr>t_responses = []\<rparr>) = Inr 0 \<and>
   TextReporter_buf example_runtime \<lparr>t_responses = []\<rparr> =
     Inr (''Results: '' @ [CHR 0x0A] @
          ''Time      (avg): 0'' @ [CHR 0x0A] @
          ''Bytes out (avg): ?'' @ [CHR 0x0A] @
          ''Bytes in  (avg): ?'' @ [CHR 0x0A] @
          ''Success ratio:   ?'' @ [CHR 0x0A] @
          ''Requests:        0'' @ [CHR 0x0A] @
          [CHR 0x0A] @ ''Status codes histogram:'' @ [CHR 0x0A] @
          [CHR 0x0A] @ ''Error set:'' @ [CHR 0x0A])"
proof -
  have d0: "Sprintf_d 0 = ''0''" by (simp add: Sprintf_d.simps)
  have new: "NewTextReporter 2 = Inr \<lparr>t_responses = [None, None]\<rparr>"
    "NewTextReporter 0 = Inr \<lparr>t_responses = []\<rparr>"
    by (simp_all add: NewTextReporter_def numeral_2_eq_2)
  have p: "TextReporter_Report example_runtime accepting_sink \<lparr>t_responses = [None, None]\<rparr> =
     (Inl NilDereference, \<lparr>t_responses = [None, None]\<rparr>)"
    by (simp add: TextReporter_Report_def TextReporter_buf_def TextReporter_stats_def Let_def
        deref_def)
  have s: "TextReporter_stats example_runtime \<lparr>t_responses = []\<rparr> =
      Inr \<lparr>totalTime = 0, totalBytesOut = 0, totalBytesIn = 0, totalSuccess = 0,
           histogram = Map.empty, errors = {}, totalRequests = 0, avgTime = 0,
           avgBytesOut = NaN, avgBytesIn = NaN, avgSuccess = NaN\<rparr>"
    by (simp add: TextReporter_stats_def Let_def totals.defs totals0_def float64_of_int_def
        float64_of_uint64_def float64_of_int64_def round53_0 Duration_of_float64_def
        example_runtime_def)
  have b: "TextReporter_buf example_runtime \<lparr>t_responses = []\<rparr> =
     Inr (''Results: '' @ [CHR 0x0A] @
          ''Time      (avg): 0'' @ [CHR 0x0A] @
          ''Bytes out (avg): ?'' @ [CHR 0x0A] @
          ''Bytes in  (avg): ?'' @ [CHR 0x0A] @
          ''Success ratio:   ?'' @ [CHR 0x0A] @
          ''Requests:        0'' @ [CHR 0x0A] @
          [CHR 0x0A] @ ''Status codes histogram:'' @ [CHR 0x0A] @
          [CHR 0x0A] @ ''Error set:'' @ [CHR 0x0A])"
    unfolding TextReporter_buf_def s
    by (simp add: report_pieces_def header_pieces_def histogram_pieces_def error_pieces_def
        Sprintln_def d0 example_runtime_def)
  show ?thesis using new p b by (simp add: s)
qed

lemma stats_add_all_events:
  "TextReporter_stats rt (TextReporter_add_all (map Some rs) \<lparr>t_responses = []\<rparr>) =
   TextReporter_stats rt \<lparr>t_responses = map Some rs\<rparr>"
  by (simp add: TextReporter_stats_def t_responses_add_all)

lemma stats_events_fields:
  assumes "TextReporter_stats rt \<lparr>t_responses = map Some rs\<rparr> = Inr s"
  shows "totalSuccess s = of_nat (length (filter success rs))"
    and "errors s = {m. \<exists>res\<in>set rs. err res = Some m}"
    and "totalRequests s = int (length rs)"
    and "avgSuccess s = fdiv (float64_of_uint64 (totalSuccess s)) (float64_of_int (totalRequests s))"
  using assms
  by (auto simp: stats_events totals.defs totalSuccess_fold errors_fold totals0_def)

lemma stats_events_Inr:
  "\<exists>s. TextReporter_stats rt \<lparr>t_responses = map Some rs\<rparr> = Inr s"
  by (simp add: stats_events)

lemma distinct_pair:
  assumes "distinct l" "set l = {x, y}" "x \<noteq> y"
  shows "l = [x, y] \<or> l = [y, x]"
proof -
  have "card (set l) = 2" using assms by simp
  then have "length l = 2" using assms(1) by (simp add: distinct_card)
  then obtain u v where "l = [u, v]"
    by (metis (no_types, opaque_lifting) Suc_length_conv length_0_conv numeral_2_eq_2)
  then show ?thesis using assms by (auto simp: doubleton_eq_iff)
qed

text \<open>
  Claim C6. \<^verbatim>\<open>totalSuccess\<close> is the number of events whose code is at least 200 and
  less than 300 (as a \<^verbatim>\<open>uint64\<close>), and the success ratio is the quotient, on doubles,
  of that count by the number of events. For the codes 200, 201, 404, 500 the count is
  2 of 4 and the ratio is the double \<open>1 / 2\<close>.
\<close>

theorem success_ratio:
  "(\<exists>s. TextReporter_stats rt (TextReporter_add_all (map Some rs) \<lparr>t_responses = []\<rparr>) = Inr s \<and>
      totalSuccess s = of_nat (length (filter (\<lambda>res. 200 \<le> code res \<and> code res < 300) rs)) \<and>
      totalRequests s = int (length rs) \<and>
      avgSuccess s = fdiv (float64_of_uint64 (totalSuccess s)) (float64_of_int (totalRequests s))) \<and>
   (\<exists>s. TextReporter_stats rt
          (TextReporter_add_all
             [Some (a\<lparr>code := 200\<rparr>), Some (b\<lparr>code := 201\<rparr>),
              Some (c\<lparr>code := 404\<rparr>), Some (d\<lparr>code := 500\<rparr>)] \<lparr>t_responses = []\<rparr>) = Inr s \<and>
      totalSuccess s = 2 \<and> totalRequests s = 4 \<and> avgSuccess s = Finite (1 / 2))"
proof -
  obtain s where s: "TextReporter_stats rt \<lparr>t_responses = map Some rs\<rparr> = Inr s"
    using stats_events_Inr by blast
  have 1: "\<exists>s. TextReporter_stats rt (TextReporter_add_all (map Some rs) \<lparr>t_responses = []\<rparr>) = Inr s \<and>
      totalSuccess s = of_nat (length (filter (\<lambda>res. 200 \<le> code res \<and> code res < 300) rs)) \<and>
      totalRequests s = int (length rs) \<and>
      avgSuccess s = fdiv (float64_of_uint64 (totalSuccess s)) (float64_of_int (totalRequests s))"
    using s stats_events_fields(1,3,4)[OF s]
    by (simp add: stats_add_all_events success_def[abs_def])
  let ?ex = "[a\<lparr>code := 200\<rparr>, b\<lparr>code := 201\<rparr>, c\<lparr>code := 404\<rparr>, d\<lparr>code := 500\<rparr>]"
  obtain s' where s': "TextReporter_stats rt \<lparr>t_responses = map Some ?ex\<rparr> = Inr s'"
    using stats_events_Inr by blast
  have ts: "totalSuccess s' = 2" and tr: "totalRequests s' = 4"
    using stats_events_fields(1,3)[OF s'] by (simp_all add: success_def)
  have "avgSuccess s' = Finite (1 / 2)"
    using stats_events_fields(4)[OF s'] by (simp add: ts tr fdiv_2_4)
  then have 2: "\<exists>s. TextReporter_stats rt
          (TextReporter_add_all
             [Some (a\<lparr>code := 200\<rparr>), Some (b\<lparr>code := 201\<rparr>),
              Some (c\<lparr>code := 404\<rparr>), Some (d\<lparr>code := 500\<rparr>)] \<lparr>t_responses = []\<rparr>) = Inr s \<and>
      totalSuccess s = 2 \<and> totalRequests s = 4 \<and> avgSuccess s = Finite (1 / 2)"
    using s' ts tr stats_add_all_events[of rt ?ex] by simp
  from 1 2 show ?thesis by blast
qed

text \<open>
  Claim C8. \<^verbatim>\<open>Report\<close> leaves the reporter as it was, for both reporters, whatever
  the sink \<open>out\<close> returns and also when the loop panics.
\<close>

theorem Report_leaves_reporter:
  "snd (TextReporter_Report rt out r) = r \<and>
   snd (GraphicalReporter_Report String_Time out g) = g"
  by (simp add: TextReporter_Report_def GraphicalReporter_Report_def split: sum.splits)

lemma buf_events:
  assumes "TextReporter_stats rt r = Inr s"
  shows "TextReporter_buf rt r =
     Inr (concat (header_pieces rt s @ histogram_pieces rt s) @
          Sprintln (CHR 0x0A # ''Error set:'') @ concat (error_pieces rt s))"
  using assms by (simp add: TextReporter_buf_def report_pieces_def)

lemma error_pieces_distinct:
  assumes "range_errors_ok rt (errors s)"
  shows "distinct (error_pieces rt s)"
    and "set (error_pieces rt s) = Sprintln ` errors s"
    and "length (error_pieces rt s) = card (errors s)"
proof -
  have inj: "inj_on Sprintln A" for A by (simp add: inj_on_def Sprintln_def)
  show "distinct (error_pieces rt s)"
    using assms by (simp add: error_pieces_def range_errors_ok_def distinct_map inj)
  show "set (error_pieces rt s) = Sprintln ` errors s"
    using assms by (simp add: error_pieces_def range_errors_ok_def)
  show "length (error_pieces rt s) = card (errors s)"
    using assms by (metis error_pieces_def length_map range_errors_ok_def distinct_card)
qed

text \<open>
  Claim C7. The set of errors holds each message once: it is the set of the messages
  of the events, and \<^verbatim>\<open>Report\<close> prints one line per element, whatever order
  \<^verbatim>\<open>range\<close> takes. Three events with the messages timeout, timeout, refused give the
  set of the two messages and exactly two error lines, after the header of the set.
\<close>

theorem error_set_dedup:
  "(\<exists>s. TextReporter_stats rt (TextReporter_add_all (map Some rs) \<lparr>t_responses = []\<rparr>) = Inr s \<and>
      errors s = {m. \<exists>res\<in>set rs. err res = Some m} \<and>
      (range_errors_ok rt (errors s) \<longrightarrow>
         distinct (error_pieces rt s) \<and> length (error_pieces rt s) = card (errors s))) \<and>
   (\<exists>s. TextReporter_stats rt
          (TextReporter_add_all
             [Some (a\<lparr>err := Some ''timeout''\<rparr>), Some (b\<lparr>err := Some ''timeout''\<rparr>),
              Some (c\<lparr>err := Some ''refused''\<rparr>)] \<lparr>t_responses = []\<rparr>) = Inr s \<and>
      errors s = {''timeout'', ''refused''} \<and>
      (range_errors_ok rt (errors s) \<longrightarrow>
         (error_pieces rt s = [Sprintln ''timeout'', Sprintln ''refused''] \<or>
          error_pieces rt s = [Sprintln ''refused'', Sprintln ''timeout'']) \<and>
         TextReporter_buf rt
          (TextReporter_add_all
             [Some (a\<lparr>err := Some ''timeout''\<rparr>), Some (b\<lparr>err := Some ''timeout''\<rparr>),
              Some (c\<lparr>err := Some ''refused''\<rparr>)] \<lparr>t_responses = []\<rparr>) =
           Inr (concat (header_pieces rt s @ histogram_pieces rt s) @
                Sprintln (CHR 0x0A # ''Error set:'') @ concat (error_pieces rt s))))"
proof -
  obtain s where s: "TextReporter_stats rt \<lparr>t_responses = map Some rs\<rparr> = Inr s"
    using stats_events_Inr by blast
  have 1: "\<exists>s. TextReporter_stats rt (TextReporter_add_all (map Some rs) \<lparr>t_responses = []\<rparr>) = Inr s \<and>
      errors s = {m. \<exists>res\<in>set rs. err res = Some m} \<and>
      (range_errors_ok rt (errors s) \<longrightarrow>
         distinct (error_pieces rt s) \<and> length (error_pieces rt s) = card (errors s))"
    using s stats_events_fields(2)[OF s] error_pieces_distinct(1,3)[of rt s]
    by (auto simp: stats_add_all_events)
  let ?ex = "[a\<lparr>err := Some ''timeout''\<rparr>, b\<lparr>err := Some ''timeout''\<rparr>, c\<lparr>err := Some ''refused''\<rparr>]"
  let ?r = "TextReporter_add_all (map Some ?ex) \<lparr>t_responses = []\<rparr>"
  obtain s' where s': "TextReporter_stats rt \<lparr>t_responses = map Some ?ex\<rparr> = Inr s'"
    using stats_events_Inr by blast
  then have r: "TextReporter_stats rt ?r = Inr s'"
    by (simp only: stats_add_all_events)
  have e: "errors s' = {''timeout'', ''refused''}"
    using stats_events_fields(2)[OF s'] by auto
  have p: "error_pieces rt s' = [Sprintln ''timeout'', Sprintln ''refused''] \<or>
           error_pieces rt s' = [Sprintln ''refused'', Sprintln ''timeout'']"
    if ok: "range_errors_ok rt (errors s')"
  proof (rule distinct_pair)
    show "distinct (error_pieces rt s')" using ok by (rule error_pieces_distinct)
    show "set (error_pieces rt s') = {Sprintln ''timeout'', Sprintln ''refused''}"
      using error_pieces_distinct(2)[OF ok] by (simp add: e)
    show "Sprintln ''timeout'' \<noteq> Sprintln ''refused''" by (simp add: Sprintln_def)
  qed
  have 2: "\<exists>s. TextReporter_stats rt ?r = Inr s \<and>
      errors s = {''timeout'', ''refused''} \<and>
      (range_errors_ok rt (errors s) \<longrightarrow>
         (error_pieces rt s = [Sprintln ''timeout'', Sprintln ''refused''] \<or>
          error_pieces rt s = [Sprintln ''refused'', Sprintln ''timeout'']) \<and>
         TextReporter_buf rt ?r =
           Inr (concat (header_pieces rt s @ histogram_pieces rt s) @
                Sprintln (CHR 0x0A # ''Error set:'') @ concat (error_pieces rt s)))"
    using r e p buf_events[OF r] by blast
  from 1 2 show ?thesis by simp
qed

theorem error_set_dedup_witness:
  "\<exists>s. TextReporter_stats example_runtime
          (TextReporter_add_all
             [Some ((event_at 1 500)\<lparr>err := Some ''timeout''\<rparr>),
              Some ((event_at 2 500)\<lparr>err := Some ''timeout''\<rparr>),
              Some ((event_at 3 500)\<lparr>err := Some ''refused''\<rparr>)] \<lparr>t_responses = []\<rparr>) = Inr s \<and>
      errors s = {''timeout'', ''refused''} \<and>
      range_errors_ok example_runtime (errors s) \<and>
      error_pieces example_runtime s = [Sprintln ''timeout'', Sprintln ''refused''] \<and>
      TextReporter_buf example_runtime
          (TextReporter_add_all
             [Some ((event_at 1 500)\<lparr>err := Some ''timeout''\<rparr>),
              Some ((event_at 2 500)\<lparr>err := Some ''timeout''\<rparr>),
              Some ((event_at 3 500)\<lparr>err := Some ''refused''\<rparr>)] \<lparr>t_responses = []\<rparr>) =
           Inr (concat (header_pieces example_runtime s @ histogram_pieces example_runtime s) @
                Sprintln (CHR 0x0A # ''Error set:'') @ concat (error_pieces example_runtime s))"
proof -
  from error_set_dedup[of example_runtime "[]" "event_at 1 500" "event_at 2 500" "event_at 3 500",
      THEN conjunct2]
  obtain s where s: "TextReporter_stats example_runtime
          (TextReporter_add_all
             [Some ((event_at 1 500)\<lparr>err := Some ''timeout''\<rparr>),
              Some ((event_at 2 500)\<lparr>err := Some ''timeout''\<rparr>),
              Some ((event_at 3 500)\<lparr>err := Some ''refused''\<rparr>)] \<lparr>t_responses = []\<rparr>) = Inr s"
    and e: "errors s = {''timeout'', ''refused''}"
    and imp: "range_errors_ok example_runtime (errors s) \<longrightarrow>
         (error_pieces example_runtime s = [Sprintln ''timeout'', Sprintln ''refused''] \<or>
          error_pieces example_runtime s = [Sprintln ''refused'', Sprintln ''timeout'']) \<and>
         TextReporter_buf example_runtime
          (TextReporter_add_all
             [Some ((event_at 1 500)\<lparr>err := Some ''timeout''\<rparr>),
              Some ((event_at 2 500)\<lparr>err := Some ''timeout''\<rparr>),
              Some ((event_at 3 500)\<lparr>err := Some ''refused''\<rparr>)] \<lparr>t_responses = []\<rparr>) =
           Inr (concat (header_pieces example_runtime s @ histogram_pieces example_runtime s) @
                Sprintln (CHR 0x0A # ''Error set:'') @ concat (error_pieces example_runtime s))"
    by (elim exE conjE)
  have ok: "range_errors_ok example_runtime (errors s)"
    unfolding e by (simp add: range_errors_ok_def example_runtime_def)
  have p: "error_pieces example_runtime s = [Sprintln ''timeout'', Sprintln ''refused'']"
    unfolding error_pieces_def e by (simp add: example_runtime_def)
  from imp ok have b: "TextReporter_buf example_runtime
          (TextReporter_add_all
             [Some ((event_at 1 500)\<lparr>err := Some ''timeout''\<rparr>),
              Some ((event_at 2 500)\<lparr>err := Some ''timeout''\<rparr>),
              Some ((event_at 3 500)\<lparr>err := Some ''refused''\<rparr>)] \<lparr>t_responses = []\<rparr>) =
           Inr (concat (header_pieces example_runtime s @ histogram_pieces example_runtime s) @
                Sprintln (CHR 0x0A # ''Error set:'') @ concat (error_pieces example_runtime s))"
    by (elim impE conjE)
  show ?thesis
    by (intro exI[of _ s] conjI s e ok p b)
qed

text \<open>
  Claim C9. The success count reads the status code only. An event with an error and
  a code in the range from 200 to 299 adds one to \<^verbatim>\<open>totalSuccess\<close> and its message to
  the error set, in one iteration and in a whole report; replacing the \<^verbatim>\<open>err\<close> of
  every event by anything else leaves \<^verbatim>\<open>totalSuccess\<close> as it is.
\<close>

theorem success_ignores_err:
  assumes "200 \<le> code res" "code res < 300" "err res = Some m"
  shows "totalSuccess (accumulate res a) = totalSuccess a + 1 \<and>
         m \<in> errors (accumulate res a) \<and>
         (\<exists>s. TextReporter_stats rt
                (TextReporter_add_all (map Some (rs @ res # rs')) \<lparr>t_responses = []\<rparr>) = Inr s \<and>
              m \<in> errors s \<and>
              totalSuccess s =
                of_nat (length (filter (\<lambda>x. 200 \<le> code x \<and> code x < 300) rs) + 1 +
                        length (filter (\<lambda>x. 200 \<le> code x \<and> code x < 300) rs'))) \<and>
         (\<exists>s s'. TextReporter_stats rt
                (TextReporter_add_all (map Some xs) \<lparr>t_responses = []\<rparr>) = Inr s \<and>
               TextReporter_stats rt
                (TextReporter_add_all (map Some (map (\<lambda>x. x\<lparr>err := g x\<rparr>) xs))
                   \<lparr>t_responses = []\<rparr>) = Inr s' \<and>
               totalSuccess s' = totalSuccess s)"
proof -
  have 1: "totalSuccess (accumulate res a) = totalSuccess a + 1 \<and> m \<in> errors (accumulate res a)"
    using assms by (simp add: accumulate_def)
  obtain s where s: "TextReporter_stats rt \<lparr>t_responses = map Some (rs @ res # rs')\<rparr> = Inr s"
    using stats_events_Inr by blast
  have "m \<in> errors s" using stats_events_fields(2)[OF s] assms(3) by auto
  moreover have "totalSuccess s =
                of_nat (length (filter (\<lambda>x. 200 \<le> code x \<and> code x < 300) rs) + 1 +
                        length (filter (\<lambda>x. 200 \<le> code x \<and> code x < 300) rs'))"
    using stats_events_fields(1)[OF s] assms(1,2) by (simp add: success_def[abs_def])
  ultimately have 2: "\<exists>s. TextReporter_stats rt
                (TextReporter_add_all (map Some (rs @ res # rs')) \<lparr>t_responses = []\<rparr>) = Inr s \<and>
              m \<in> errors s \<and>
              totalSuccess s =
                of_nat (length (filter (\<lambda>x. 200 \<le> code x \<and> code x < 300) rs) + 1 +
                        length (filter (\<lambda>x. 200 \<le> code x \<and> code x < 300) rs'))"
    using s by (simp only: stats_add_all_events) blast
  obtain t where t: "TextReporter_stats rt \<lparr>t_responses = map Some xs\<rparr> = Inr t"
    using stats_events_Inr by blast
  obtain t' where t': "TextReporter_stats rt
      \<lparr>t_responses = map Some (map (\<lambda>x. x\<lparr>err := g x\<rparr>) xs)\<rparr> = Inr t'"
    using stats_events_Inr by blast
  have "filter success (map (\<lambda>x. x\<lparr>err := g x\<rparr>) xs) = map (\<lambda>x. x\<lparr>err := g x\<rparr>) (filter success xs)"
    by (induction xs) (simp_all add: success_def)
  then have "totalSuccess t' = totalSuccess t"
    using stats_events_fields(1)[OF t] stats_events_fields(1)[OF t'] by simp
  then have 3: "\<exists>s s'. TextReporter_stats rt
                (TextReporter_add_all (map Some xs) \<lparr>t_responses = []\<rparr>) = Inr s \<and>
               TextReporter_stats rt
                (TextReporter_add_all (map Some (map (\<lambda>x. x\<lparr>err := g x\<rparr>) xs))
                   \<lparr>t_responses = []\<rparr>) = Inr s' \<and>
               totalSuccess s' = totalSuccess s"
    using t t' by (simp only: stats_add_all_events) blast
  from 1 2 3 show ?thesis by blast
qed

theorem success_ignores_err_witness:
  "200 \<le> code ((event_at 1 200)\<lparr>err := Some ''timeout''\<rparr>) \<and>
   code ((event_at 1 200)\<lparr>err := Some ''timeout''\<rparr>) < 300 \<and>
   err ((event_at 1 200)\<lparr>err := Some ''timeout''\<rparr>) = Some ''timeout'' \<and>
   totalSuccess (accumulate ((event_at 1 200)\<lparr>err := Some ''timeout''\<rparr>) totals0) = 1 \<and>
   ''timeout'' \<in> errors (accumulate ((event_at 1 200)\<lparr>err := Some ''timeout''\<rparr>) totals0)"
proof -
  have h: "200 \<le> code ((event_at 1 200)\<lparr>err := Some ''timeout''\<rparr>)"
    "code ((event_at 1 200)\<lparr>err := Some ''timeout''\<rparr>) < 300"
    "err ((event_at 1 200)\<lparr>err := Some ''timeout''\<rparr>) = Some ''timeout''"
    by (simp_all add: event_at_def)
  have "totalSuccess totals0 = 0" by (simp add: totals0_def)
  then show ?thesis
    using h success_ignores_err[OF h, of totals0 example_runtime "[]" "[]" "[]" "\<lambda>x. None"]
    by simp
qed

end
